theory Spec2Isabelle
  imports Main "HOL-Library.Multiset" "HOL-Library.Sublist"
begin

section \<open>Data model of \<open>file_based_stream.py\<close>\<close>

text \<open>
  JSON-like values stand for Python's \<open>Any\<close>. A Python \<open>dict\<close> with string keys
  (a schema, a record, the raw configuration, the stream state) is an association list,
  so that its truth value (\<open>{}\<close> is falsy) and its equality are computable.
\<close>

datatype json =
    JNull
  | JBool bool
  | JInt int
  | JStr string
  | JList "json list"
  | JDict "(string \<times> json) list"

type_synonym pydict = "(string \<times> json) list"

datatype FileType = Avro | Csv | Jsonl | Parquet

datatype FileTypeParser = AvroParser | CsvParser | JsonlParser | ParquetParser

text \<open>\<open>last_modified\<close> is a \<open>datetime\<close>: an instant on a linear time line, here an integer.\<close>

record RemoteFile =
  uri :: string
  last_modified :: int
  file_type :: FileType

datatype PrimaryKeyType =
    KeyField string
  | KeyFields "string list"
  | KeyPaths "string list list"

record FileBasedStreamConfig =
  stream_name :: string
  cfg_file_type :: FileType
  globs :: "string list"
  validation_policy :: string
  input_schema :: "pydict option"
  cfg_primary_key :: "PrimaryKeyType option"

record AbstractDiscoveryPolicy =
  n_concurrent_requests :: int
  max_n_files_for_schema_inference :: int

text \<open>The exceptions the module raises, and the one \<open>asyncio.wait\<close> raises on an empty set.\<close>

datatype error =
    ConfigValidationError string
  | MissingSchemaError string
  | SchemaInferenceError string
  | ValueError string

text \<open>
  An exception of class \<open>Exception\<close> raised by a collaborator (the configuration
  constructor, a parser); only its message is kept.
\<close>

datatype exc = Exc string

text \<open>A task made by \<open>asyncio.create_task\<close>: its creation number and the file it infers.\<close>

type_synonym task = "nat \<times> RemoteFile"

text \<open>
  The collaborators the module imports and calls, none of which it defines: the stream
  reader's listing, the parsers (chosen by file type), the schema helpers, the validation
  predicate and the configuration constructor. \<open>completes_first\<close> is the event loop's
  choice at \<open>asyncio.wait(..., return_when=FIRST_COMPLETED)\<close>: which of the pending
  tasks are found done, in the order the \<open>done\<close> set is then iterated.
\<close>

record world =
  list_matching_files :: "string list \<Rightarrow> int option \<Rightarrow> RemoteFile list"
  parser_infer_schema :: "FileTypeParser \<Rightarrow> RemoteFile \<Rightarrow> exc + pydict"
  parser_parse_records :: "FileTypeParser \<Rightarrow> RemoteFile \<Rightarrow> pydict list"
  merge_schemas :: "pydict \<Rightarrow> pydict \<Rightarrow> pydict"
  type_mapping_to_jsonschema :: "pydict \<Rightarrow> pydict"
  record_passes_validation_policy :: "string \<Rightarrow> pydict \<Rightarrow> pydict \<Rightarrow> bool"
  new_FileBasedStreamConfig :: "pydict \<Rightarrow> exc + FileBasedStreamConfig"
  completes_first :: "task list \<Rightarrow> task list"

text \<open>What the module does to the outside, in the order it does it.\<close>

datatype event =
    ListMatchingFiles "string list" "int option"
  | InferSchemaTask RemoteFile
  | ParseRecords RemoteFile
  | WarnRecordRejected pydict
  | WarnRefusingToInfer nat int

text \<open>
  A \<open>FileBasedStream\<close> object: its attributes, the two \<open>functools.cache\<close> entries
  keyed by the object, and the trace of its effects. \<open>catalog_schema = None\<close> is
  Python's \<open>None\<close>.
\<close>

record FileBasedStream =
  config :: FileBasedStreamConfig
  catalog_schema :: "pydict option"
  discovery_policy :: AbstractDiscoveryPolicy
  get_json_schema_cache :: "pydict option"
  list_files_cache :: "RemoteFile list option"
  effects :: "event list"

section \<open>Construction\<close>

definition init :: "world \<Rightarrow> pydict \<Rightarrow> AbstractDiscoveryPolicy \<Rightarrow> error + FileBasedStream" where
  "init w raw_config policy =
     (case new_FileBasedStreamConfig w raw_config of
        Inl exn \<Rightarrow> Inl (ConfigValidationError ''Error creating stream config object.'')
      | Inr c \<Rightarrow>
          Inr \<lparr>config = c, catalog_schema = Some [], discovery_policy = policy,
               get_json_schema_cache = None, list_files_cache = None, effects = []\<rparr>)"

section \<open>Listing files\<close>

text \<open>\<open>_get_datetime_from_stream_state\<close>: the body is \<open>return None\<close>.\<close>

definition get_datetime_from_stream_state :: "pydict option \<Rightarrow> int option" where
  "get_datetime_from_stream_state stream_state = None"

definition list_files_for_this_sync ::
  "world \<Rightarrow> pydict option \<Rightarrow> FileBasedStream \<Rightarrow> RemoteFile list \<times> FileBasedStream" where
  "list_files_for_this_sync w stream_state s =
     (let start = get_datetime_from_stream_state stream_state
      in (list_matching_files w (globs (config s)) start,
          s\<lparr>effects := effects s @ [ListMatchingFiles (globs (config s)) start]\<rparr>))"

text \<open>\<open>list_files\<close> under \<open>@cache\<close>: the listing is made once per object.\<close>

definition list_files :: "world \<Rightarrow> FileBasedStream \<Rightarrow> RemoteFile list \<times> FileBasedStream" where
  "list_files w s =
     (case list_files_cache s of
        Some files \<Rightarrow> (files, s)
      | None \<Rightarrow>
          (let files = list_matching_files w (globs (config s)) None
           in (files,
               s\<lparr>list_files_cache := Some files,
                 effects := effects s @ [ListMatchingFiles (globs (config s)) None]\<rparr>)))"

section \<open>Schema inference\<close>

text \<open>
  \<open>_get_parser\<close>: a dictionary with one entry for each member of \<open>FileType\<close>. The
  configuration's file type is a \<open>FileType\<close>, as the method's signature has it, so the
  lookup finds a parser.
\<close>

definition get_parser :: "FileType \<Rightarrow> FileTypeParser" where
  "get_parser ft =
     (case ft of
        Avro \<Rightarrow> AvroParser
      | Csv \<Rightarrow> CsvParser
      | Jsonl \<Rightarrow> JsonlParser
      | Parquet \<Rightarrow> ParquetParser)"

text \<open>\<open>_infer_file_schema\<close>: any \<open>Exception\<close> of the parser becomes a \<open>SchemaInferenceError\<close>.\<close>

definition infer_file_schema :: "world \<Rightarrow> FileBasedStreamConfig \<Rightarrow> RemoteFile \<Rightarrow> error + pydict" where
  "infer_file_schema w c file =
     (case parser_infer_schema w (get_parser (cfg_file_type c)) file of
        Inl exn \<Rightarrow> Inl (SchemaInferenceError (''Error inferring schema for file: '' @ uri file))
      | Inr sch \<Rightarrow> Inr sch)"

text \<open>
  The inner loop of \<open>_infer_schema\<close>:
  \<^verbatim>\<open>while len(pending_tasks) <= n_concurrent_requests and (file := next(files, None)):\<close>
  with the remaining files of the iterator as a list. A \<open>RemoteFile\<close> object is truthy.
\<close>

fun top_up :: "int \<Rightarrow> task list \<Rightarrow> nat \<Rightarrow> RemoteFile list \<Rightarrow> task list \<times> nat \<times> RemoteFile list" where
  "top_up n pending n_started [] = (pending, n_started, [])"
| "top_up n pending n_started (file # files) =
     (if int (length pending) \<le> n
      then top_up n (pending @ [(n_started, file)]) (Suc n_started) files
      else (pending, n_started, file # files))"

text \<open>
  \<open>asyncio.wait(pending_tasks, return_when=FIRST_COMPLETED)\<close>: an empty set is a
  \<open>ValueError\<close>; otherwise at least one pending task is done, and \<open>done\<close> and the new
  \<open>pending\<close> split the old set. Whatever \<open>pick\<close> answers is cut down to such a split.
\<close>

definition asyncio_wait :: "(task list \<Rightarrow> task list) \<Rightarrow> task list \<Rightarrow> error + (task list \<times> task list)" where
  "asyncio_wait pick pending =
     (if pending = [] then Inl (ValueError ''Set of Tasks/Futures is empty.'')
      else
        (let picked = filter (\<lambda>t. t \<in> set pending) (remdups (pick pending));
             done = (if picked = [] then [hd pending] else picked)
         in Inr (done, filter (\<lambda>t. t \<notin> set done) pending)))"

text \<open>
  \<^verbatim>\<open>for task in done: base_schema = merge_schemas(base_schema, task.result())\<close>
  where \<open>task.result()\<close> raises what the task raised.
\<close>

fun merge_done :: "world \<Rightarrow> FileBasedStreamConfig \<Rightarrow> pydict \<Rightarrow> task list \<Rightarrow> error + pydict" where
  "merge_done w c base_schema [] = Inr base_schema"
| "merge_done w c base_schema (t # ts) =
     (case infer_file_schema w c (snd t) of
        Inl e \<Rightarrow> Inl e
      | Inr sch \<Rightarrow> merge_done w c (merge_schemas w base_schema sch) ts)"

text \<open>
  What a run of \<open>_infer_schema\<close> leaves behind: the value or the exception, the files a
  task was created for, the number of pending tasks at each \<open>await asyncio.wait\<close> (all
  of them created and none completed), and the tasks still pending on the event loop when
  the coroutine ends. The coroutine calls \<open>cancel\<close> on no task, so a task left pending
  is neither awaited nor cancelled by it.
\<close>

record inference_run =
  outcome :: "error + pydict"
  started :: "RemoteFile list"
  in_flight :: "nat list"
  left_pending :: "task list"

text \<open>The local variables of \<open>_infer_schema\<close>, and what the run has done so far.\<close>

record loop_state =
  base_schema :: pydict
  pending_tasks :: "task list"
  n_started :: nat
  files_iter :: "RemoteFile list"
  started_so_far :: "RemoteFile list"
  in_flight_so_far :: "nat list"

text \<open>
  The outer loop, \<^verbatim>\<open>while pending_tasks or n_started < n_files:\<close> top up, wait for
  the first completed task, merge the results of the done tasks. An exception leaves the
  loop and the coroutine at once.
\<close>

function infer_schema_loop ::
  "world \<Rightarrow> FileBasedStreamConfig \<Rightarrow> int \<Rightarrow> nat \<Rightarrow> loop_state \<Rightarrow> inference_run" where
  "infer_schema_loop w c n n_files st =
     (if pending_tasks st \<noteq> [] \<or> n_started st < n_files then
        (case top_up n (pending_tasks st) (n_started st) (files_iter st) of
           (pending1, n_started1, files1) \<Rightarrow>
             (let started1 = started_so_far st @ take (n_started1 - n_started st) (files_iter st);
                  in_flight1 = in_flight_so_far st @ [length pending1]
              in case asyncio_wait (completes_first w) pending1 of
                   Inl e \<Rightarrow>
                     \<lparr>outcome = Inl e, started = started1, in_flight = in_flight_so_far st,
                      left_pending = pending1\<rparr>
                 | Inr (done, pending2) \<Rightarrow>
                     (case merge_done w c (base_schema st) done of
                        Inl e \<Rightarrow>
                          \<lparr>outcome = Inl e, started = started1, in_flight = in_flight1,
                           left_pending = pending2\<rparr>
                      | Inr merged \<Rightarrow>
                          infer_schema_loop w c n n_files
                            \<lparr>base_schema = merged, pending_tasks = pending2,
                             n_started = n_started1, files_iter = files1,
                             started_so_far = started1, in_flight_so_far = in_flight1\<rparr>)))
      else
        \<lparr>outcome = Inr (base_schema st), started = started_so_far st,
         in_flight = in_flight_so_far st, left_pending = pending_tasks st\<rparr>)"
  by pat_completeness auto

text \<open>\<open>_infer_schema\<close>, from its first line to the loop.\<close>

definition infer_schema_coro :: "world \<Rightarrow> FileBasedStream \<Rightarrow> RemoteFile list \<Rightarrow> inference_run" where
  "infer_schema_coro w s files =
     infer_schema_loop w (config s) (n_concurrent_requests (discovery_policy s)) (length files)
       \<lparr>base_schema = [], pending_tasks = [], n_started = 0, files_iter = files,
        started_so_far = [], in_flight_so_far = []\<rparr>"

text \<open>\<open>infer_schema\<close>: \<open>loop.run_until_complete\<close> gives the coroutine's value or exception.\<close>

definition infer_schema ::
  "world \<Rightarrow> RemoteFile list \<Rightarrow> FileBasedStream \<Rightarrow> (error + pydict) \<times> FileBasedStream" where
  "infer_schema w files s =
     (let run = infer_schema_coro w s files
      in (outcome run, s\<lparr>effects := effects s @ map InferSchemaTask (started run)\<rparr>))"

section \<open>The schema of a stream\<close>

text \<open>
  \<open>sorted(xs, key=key, reverse=True)\<close>: CPython reverses the list, sorts it stably in
  ascending order and reverses the result, which keeps equal keys in their first order.
\<close>

definition py_sorted_reverse :: "('a \<Rightarrow> 'k::linorder) \<Rightarrow> 'a list \<Rightarrow> 'a list" where
  "py_sorted_reverse key xs = rev (sort_key key (rev xs))"

text \<open>The slice \<open>xs[:k]\<close>; a negative \<open>k\<close> counts from the end.\<close>

definition py_slice_to :: "'a list \<Rightarrow> int \<Rightarrow> 'a list" where
  "py_slice_to xs k = (if 0 \<le> k then take (nat k) xs else take (length xs - nat (- k)) xs)"

text \<open>The truth value of an optional dictionary: \<open>None\<close> and \<open>{}\<close> are falsy.\<close>

definition truthy :: "pydict option \<Rightarrow> bool" where
  "truthy d = (case d of None \<Rightarrow> False | Some m \<Rightarrow> m \<noteq> [])"

text \<open>
  Lines 98 to 102 of \<open>get_json_schema\<close>: the files handed to \<open>infer_schema\<close>, and the
  warning logged when the listing is cut (its first number is \<open>len(files)\<close> after the cut).
\<close>

definition files_for_inference :: "int \<Rightarrow> RemoteFile list \<Rightarrow> RemoteFile list \<times> event list" where
  "files_for_inference max_n files =
     (if int (length files) > max_n then
        (let files' = py_slice_to (py_sorted_reverse last_modified files) max_n
         in (files', [WarnRefusingToInfer (length files') max_n]))
      else (files, []))"

definition get_json_schema_body ::
  "world \<Rightarrow> FileBasedStream \<Rightarrow> (error + pydict) \<times> FileBasedStream" where
  "get_json_schema_body w s =
     (if truthy (input_schema (config s)) then
        (Inr (type_mapping_to_jsonschema w (the (input_schema (config s)))), s)
      else
        (case list_files w s of
           (files, s1) \<Rightarrow>
             (case files_for_inference
                     (max_n_files_for_schema_inference (discovery_policy s1)) files of
                (files', warnings) \<Rightarrow>
                  infer_schema w files' (s1\<lparr>effects := effects s1 @ warnings\<rparr>))))"

text \<open>
  \<open>get_json_schema\<close> under \<open>@cache\<close>: a returned value is kept for the object, a raised
  exception is not.
\<close>

definition get_json_schema :: "world \<Rightarrow> FileBasedStream \<Rightarrow> (error + pydict) \<times> FileBasedStream" where
  "get_json_schema w s =
     (case get_json_schema_cache s of
        Some v \<Rightarrow> (Inr v, s)
      | None \<Rightarrow>
          (case get_json_schema_body w s of
             (Inl e, s') \<Rightarrow> (Inl e, s')
           | (Inr v, s') \<Rightarrow> (Inr v, s'\<lparr>get_json_schema_cache := Some v\<rparr>)))"

section \<open>Reading records\<close>

text \<open>
  The inner loop of \<open>read_records\<close> over one file's records: the records yielded and the
  warnings logged, each in the parser's order.
\<close>

fun validate_records :: "(pydict \<Rightarrow> bool) \<Rightarrow> pydict list \<Rightarrow> pydict list \<times> event list" where
  "validate_records passes [] = ([], [])"
| "validate_records passes (r # rs) =
     (case validate_records passes rs of
        (yielded, evs) \<Rightarrow>
          (if \<not> passes r then (yielded, WarnRecordRejected r # evs)
           else (r # yielded, evs)))"

text \<open>The outer loop over the files.\<close>

fun read_files ::
  "world \<Rightarrow> FileBasedStreamConfig \<Rightarrow> pydict \<Rightarrow> RemoteFile list \<Rightarrow> pydict list \<times> event list" where
  "read_files w c schema [] = ([], [])"
| "read_files w c schema (file # files) =
     (case validate_records (\<lambda>r. record_passes_validation_policy w (validation_policy c) r schema)
             (parser_parse_records w (get_parser (cfg_file_type c)) file) of
        (yielded, evs) \<Rightarrow>
          (case read_files w c schema files of
             (yielded', evs') \<Rightarrow> (yielded @ yielded', ParseRecords file # evs @ evs')))"

text \<open>
  \<open>read_records\<close> is a generator: the result is the list of the records it yields and
  the exception that ends it, if one does. Of its arguments only \<open>stream_state\<close> is
  read.
\<close>

definition read_records ::
  "world \<Rightarrow> pydict option \<Rightarrow> FileBasedStream \<Rightarrow> (pydict list \<times> error option) \<times> FileBasedStream" where
  "read_records w stream_state s =
     (case catalog_schema s of
        None \<Rightarrow>
          (([], Some (MissingSchemaError
                 ''Expected `json_schema` in the configured catalog but it is missing.'')), s)
      | Some schema \<Rightarrow>
          (case list_files_for_this_sync w stream_state s of
             (files, s1) \<Rightarrow>
               (case read_files w (config s1) schema files of
                  (yielded, evs) \<Rightarrow> ((yielded, None), s1\<lparr>effects := effects s1 @ evs\<rparr>))))"

section \<open>A file catalog and concrete collaborators\<close>

text \<open>
  Modelled from the spec: the stream reader's \<open>list_matching_files\<close> is not part of the
  module. The spec's \<open>RemoteFileCatalog.listMatching(globs, minModified)\<close> enumerates the
  files matching the glob patterns, in the catalog's order, optionally filtered by a
  minimum modification time; which URI a pattern matches is left to \<open>glob_match\<close>.
\<close>

definition catalog_list_matching ::
  "(string \<Rightarrow> string \<Rightarrow> bool) \<Rightarrow> RemoteFile list \<Rightarrow> string list \<Rightarrow> int option \<Rightarrow> RemoteFile list" where
  "catalog_list_matching glob_match catalog gs min_modified =
     filter (\<lambda>f. list_ex (\<lambda>g. glob_match g (uri f)) gs \<and>
                 (case min_modified of None \<Rightarrow> True | Some t \<Rightarrow> t \<le> last_modified f))
       catalog"

text \<open>
  A catalog of three CSV files modified at the instants 9, 10 and 11, and collaborators to
  run the module on it: a parser that fails on the files named in \<open>bad\<close>, records whose
  \<open>id\<close> must be an integer, a schema merge that keeps the first entry of each field, a
  configuration constructor that wants a \<open>name\<close> and the file type \<open>csv\<close>, and an event
  loop on which the task created first completes first.
\<close>

definition file_a :: RemoteFile where
  "file_a = \<lparr>uri = ''a.csv'', last_modified = 9, file_type = Csv\<rparr>"

definition file_b :: RemoteFile where
  "file_b = \<lparr>uri = ''b.csv'', last_modified = 10, file_type = Csv\<rparr>"

definition file_c :: RemoteFile where
  "file_c = \<lparr>uri = ''c.csv'', last_modified = 11, file_type = Csv\<rparr>"

definition example_config_of :: "pydict \<Rightarrow> exc + FileBasedStreamConfig" where
  "example_config_of raw =
     (case (map_of raw ''name'', map_of raw ''file_type'') of
        (Some (JStr n), Some (JStr ft)) \<Rightarrow>
          (if ft = ''csv'' then
             Inr \<lparr>stream_name = n, cfg_file_type = Csv,
                  globs = [''a.csv'', ''b.csv'', ''c.csv''],
                  validation_policy = ''skip_record'',
                  input_schema = (case map_of raw ''input_schema'' of
                                    Some (JDict d) \<Rightarrow> Some d | _ \<Rightarrow> None),
                  cfg_primary_key = None\<rparr>
           else Inl (Exc ''unknown file type''))
      | _ \<Rightarrow> Inl (Exc ''field required''))"

definition example_world :: "string list \<Rightarrow> world" where
  "example_world bad =
     \<lparr>list_matching_files = catalog_list_matching (=) [file_a, file_b, file_c],
      parser_infer_schema =
        (\<lambda>p f. if uri f \<in> set bad then Inl (Exc ''malformed file'')
                else Inr [(''id'', JStr ''integer'')]),
      parser_parse_records =
        (\<lambda>p f. [[(''id'', JInt (last_modified f))], [(''id'', JStr (uri f))]]),
      merge_schemas = (\<lambda>a b. a @ filter (\<lambda>kv. map_of a (fst kv) = None) b),
      type_mapping_to_jsonschema =
        (\<lambda>m. [(''type'', JStr ''object''), (''properties'', JDict m)]),
      record_passes_validation_policy =
        (\<lambda>policy r schema. case map_of r ''id'' of Some (JInt i) \<Rightarrow> True | _ \<Rightarrow> False),
      new_FileBasedStreamConfig = example_config_of,
      completes_first = take 1\<rparr>"

definition example_policy :: "int \<Rightarrow> int \<Rightarrow> AbstractDiscoveryPolicy" where
  "example_policy n k = \<lparr>n_concurrent_requests = n, max_n_files_for_schema_inference = k\<rparr>"

definition example_raw_config :: pydict where
  "example_raw_config = [(''name'', JStr ''orders''), (''file_type'', JStr ''csv'')]"

definition example_stream :: "int \<Rightarrow> int \<Rightarrow> pydict option \<Rightarrow> FileBasedStream" where
  "example_stream n k declared =
     \<lparr>config = \<lparr>stream_name = ''orders'', cfg_file_type = Csv,
                globs = [''a.csv'', ''b.csv'', ''c.csv''],
                validation_policy = ''skip_record'', input_schema = declared,
                cfg_primary_key = None\<rparr>,
      catalog_schema = Some [], discovery_policy = example_policy n k,
      get_json_schema_cache = None, list_files_cache = None, effects = []\<rparr>"

section \<open>The inference loop terminates\<close>

text \<open>
  Topping up moves files from the iterator to the pending set, and every wait takes at
  least one task out of the pending set: the two lengths together decrease with every
  round of the loop.
\<close>

lemma top_up_total_length:
  "top_up n pending k files = (pending', k', files') \<Longrightarrow>
   length pending' + length files' = length pending + length files"
  by (induction n pending k files rule: top_up.induct) (auto split: if_splits)

lemma asyncio_wait_shrinks:
  assumes "asyncio_wait pick pending = Inr (done, pending')"
  shows "length pending' < length pending"
proof -
  from assms have ne: "pending \<noteq> []"
    by (auto simp: asyncio_wait_def split: if_splits)
  from assms ne have p': "pending' = filter (\<lambda>t. t \<notin> set done) pending"
    and d: "done = (let picked = filter (\<lambda>t. t \<in> set pending) (remdups (pick pending))
                    in if picked = [] then [hd pending] else picked)"
    by (auto simp: asyncio_wait_def Let_def split: if_splits)
  have "\<exists>t \<in> set pending. t \<in> set done"
  proof (cases "filter (\<lambda>t. t \<in> set pending) (remdups (pick pending)) = []")
    case True
    then have "done = [hd pending]" using d by simp
    then show ?thesis using ne by auto
  next
    case False
    then obtain t where "t \<in> set (filter (\<lambda>t. t \<in> set pending) (remdups (pick pending)))"
      by (meson last_in_set)
    then show ?thesis using d False by auto
  qed
  then show ?thesis unfolding p'
    by (metis (mono_tags, lifting) length_filter_less)
qed

termination infer_schema_loop
  apply (relation "measure (\<lambda>(w, c, n, n_files, st). length (pending_tasks st) + length (files_iter st))")
   apply simp
  apply (auto dest!: top_up_total_length[OF sym] asyncio_wait_shrinks)
  done

declare infer_schema_loop.simps [simp del]

section \<open>Construction fails as a whole or succeeds\<close>

text \<open>
  C9: constructing a stream from raw configuration raises \<open>ConfigValidationError\<close>
  whenever the configuration constructor raises, and then no stream object (hence no
  configuration) exists; when the constructor returns a configuration, construction
  succeeds and the stream carries exactly that configuration.
\<close>

theorem init_config_validation:
  "(\<forall>exn. new_FileBasedStreamConfig w raw_config = Inl exn \<longrightarrow>
      init w raw_config policy =
        Inl (ConfigValidationError ''Error creating stream config object.'')) \<and>
   (\<forall>c. new_FileBasedStreamConfig w raw_config = Inr c \<longrightarrow>
      (\<exists>s. init w raw_config policy = Inr s \<and> config s = c))"
  by (simp add: init_def)

theorem init_config_validation_witness:
  "new_FileBasedStreamConfig (example_world []) [(''name'', JStr ''orders'')] =
     Inl (Exc ''field required'') \<and>
   init (example_world []) [(''name'', JStr ''orders'')] (example_policy 1 2) =
     Inl (ConfigValidationError ''Error creating stream config object.'') \<and>
   new_FileBasedStreamConfig (example_world []) example_raw_config =
     Inr (config (example_stream 1 2 None)) \<and>
   init (example_world []) example_raw_config (example_policy 1 2) =
     Inr (example_stream 1 2 None)"
proof -
  have bad: "new_FileBasedStreamConfig (example_world []) [(''name'', JStr ''orders'')] =
     Inl (Exc ''field required'')"
    by (simp add: example_world_def example_config_of_def)
  have good: "new_FileBasedStreamConfig (example_world []) example_raw_config =
     Inr (config (example_stream 1 2 None))"
    by (simp add: example_world_def example_config_of_def example_raw_config_def
        example_stream_def)
  from init_config_validation
         [of "example_world []" "[(''name'', JStr ''orders'')]" "example_policy 1 2"] bad
  have r1: "init (example_world []) [(''name'', JStr ''orders'')] (example_policy 1 2) =
     Inl (ConfigValidationError ''Error creating stream config object.'')"
    by blast
  have r2: "init (example_world []) example_raw_config (example_policy 1 2) =
     Inr (example_stream 1 2 None)"
    using good by (simp add: init_def example_stream_def)
  from bad good r1 r2 show ?thesis by blast
qed

section \<open>The pieces of the inference loop\<close>

lemma top_up_keeps_files:
  "top_up n pending k files = (pending', k', files') \<Longrightarrow>
   map snd pending' @ files' = map snd pending @ files"
  by (induction n pending k files rule: top_up.induct) (auto split: if_splits)

lemma top_up_counts:
  "top_up n pending k files = (pending', k', files') \<Longrightarrow>
   k \<le> k' \<and> k' + length files' = k + length files \<and> take (k' - k) files @ files' = files"
proof (induction n pending k files rule: top_up.induct)
  case (1 n pending n_started)
  then show ?case by simp
next
  case (2 n pending n_started fl files)
  show ?case
  proof (cases "int (length pending) \<le> n")
    case True
    with 2 have ih: "Suc n_started \<le> k' \<and> k' + length files' = Suc n_started + length files \<and>
        take (k' - Suc n_started) files @ files' = files"
      by simp
    then have "k' - n_started = Suc (k' - Suc n_started)" by arith
    with ih show ?thesis by simp
  next
    case False
    with 2 show ?thesis by simp
  qed
qed

lemma top_up_nonempty:
  "0 \<le> n \<Longrightarrow> pending \<noteq> [] \<or> files \<noteq> [] \<Longrightarrow>
   top_up n pending k files = (pending', k', files') \<Longrightarrow> pending' \<noteq> []"
  by (induction n pending k files rule: top_up.induct) (auto split: if_splits)

lemma top_up_bound:
  "top_up n pending k files = (pending', k', files') \<Longrightarrow>
   int (length pending) \<le> n + 1 \<Longrightarrow> int (length pending') \<le> n + 1"
  by (induction n pending k files rule: top_up.induct) (auto split: if_splits)

lemma asyncio_wait_splits:
  assumes "asyncio_wait pick pending = Inr (done, pending')"
  shows "set done \<union> set pending' = set pending"
proof -
  from assms have ne: "pending \<noteq> []"
    by (auto simp: asyncio_wait_def split: if_splits)
  from assms ne have p': "pending' = filter (\<lambda>t. t \<notin> set done) pending"
    and d: "done = (let picked = filter (\<lambda>t. t \<in> set pending) (remdups (pick pending))
                    in if picked = [] then [hd pending] else picked)"
    by (auto simp: asyncio_wait_def Let_def split: if_splits)
  have "set done \<subseteq> set pending"
    using d ne by (auto simp: Let_def split: if_splits)
  then show ?thesis unfolding p' by auto
qed

lemma asyncio_wait_returns:
  "pending \<noteq> [] \<Longrightarrow> \<exists>done pending'. asyncio_wait pick pending = Inr (done, pending')"
  by (simp add: asyncio_wait_def Let_def)

lemma merge_done_Inr:
  "merge_done w c b ts = Inr m \<Longrightarrow> t \<in> set ts \<Longrightarrow> \<exists>sch. infer_file_schema w c (snd t) = Inr sch"
  by (induction ts arbitrary: b) (auto split: sum.splits)

lemma merge_done_Inl:
  "merge_done w c b ts = Inl e \<Longrightarrow> \<exists>t \<in> set ts. infer_file_schema w c (snd t) = Inl e"
  by (induction ts arbitrary: b) (auto split: sum.splits)

lemma loop_exit:
  "\<not> (pending_tasks st \<noteq> [] \<or> n_started st < n_files) \<Longrightarrow>
   infer_schema_loop w c n n_files st =
     \<lparr>outcome = Inr (base_schema st), started = started_so_far st,
      in_flight = in_flight_so_far st, left_pending = pending_tasks st\<rparr>"
  by (subst infer_schema_loop.simps) simp

lemma loop_raise:
  "pending_tasks st \<noteq> [] \<or> n_started st < n_files \<Longrightarrow>
   top_up n (pending_tasks st) (n_started st) (files_iter st) = (p1, k1, f1) \<Longrightarrow>
   asyncio_wait (completes_first w) p1 = Inr (done, p2) \<Longrightarrow>
   merge_done w c (base_schema st) done = Inl e \<Longrightarrow>
   infer_schema_loop w c n n_files st =
     \<lparr>outcome = Inl e,
      started = started_so_far st @ take (k1 - n_started st) (files_iter st),
      in_flight = in_flight_so_far st @ [length p1], left_pending = p2\<rparr>"
  by (subst infer_schema_loop.simps) (simp add: Let_def)

lemma loop_again:
  "pending_tasks st \<noteq> [] \<or> n_started st < n_files \<Longrightarrow>
   top_up n (pending_tasks st) (n_started st) (files_iter st) = (p1, k1, f1) \<Longrightarrow>
   asyncio_wait (completes_first w) p1 = Inr (done, p2) \<Longrightarrow>
   merge_done w c (base_schema st) done = Inr merged \<Longrightarrow>
   infer_schema_loop w c n n_files st =
     infer_schema_loop w c n n_files
       \<lparr>base_schema = merged, pending_tasks = p2, n_started = k1, files_iter = f1,
        started_so_far = started_so_far st @ take (k1 - n_started st) (files_iter st),
        in_flight_so_far = in_flight_so_far st @ [length p1]\<rparr>"
  by (subst infer_schema_loop.simps) (simp add: Let_def)

lemma loop_wait_error:
  "pending_tasks st \<noteq> [] \<or> n_started st < n_files \<Longrightarrow>
   top_up n (pending_tasks st) (n_started st) (files_iter st) = (p1, k1, f1) \<Longrightarrow>
   asyncio_wait (completes_first w) p1 = Inl e \<Longrightarrow>
   infer_schema_loop w c n n_files st =
     \<lparr>outcome = Inl e,
      started = started_so_far st @ take (k1 - n_started st) (files_iter st),
      in_flight = in_flight_so_far st, left_pending = p1\<rparr>"
  by (subst infer_schema_loop.simps) (simp add: Let_def)

section \<open>Schema inference on no file\<close>

text \<open>
  C10: for the empty sequence of files, schema inference returns the empty schema \<open>{}\<close>
  without creating a task (so without calling a parser) and without raising, for every
  policy: the run has no started file and no wait, and the stream's trace is unchanged.
\<close>

theorem infer_schema_of_no_files:
  "infer_schema_coro w s [] =
     \<lparr>outcome = Inr [], started = [], in_flight = [], left_pending = []\<rparr> \<and>
   infer_schema w [] s = (Inr [], s)"
  by (simp add: infer_schema_def infer_schema_coro_def infer_schema_loop.simps)

section \<open>Tasks in flight\<close>

text \<open>
  C1: the number of tasks in flight is claimed never to exceed \<open>n_concurrent_requests\<close>.
  The loop tops up while \<open>len(pending_tasks) <= n_concurrent_requests\<close>, so with a bound
  of 1 and two files both tasks are created before the first wait: two are in flight.
\<close>

theorem in_flight_exceeds_bound:
  "n_concurrent_requests (discovery_policy (example_stream 1 2 None)) = 1 \<and>
   in_flight (infer_schema_coro (example_world []) (example_stream 1 2 None) [file_a, file_b])
     = [2, 1]"
  by (simp add: infer_schema_coro_def infer_schema_loop.simps example_stream_def
      example_policy_def example_world_def asyncio_wait_def infer_file_schema_def
      file_a_def file_b_def Let_def get_parser_def)

text \<open>What the loop does keep: never more than \<open>n_concurrent_requests + 1\<close> tasks in flight.\<close>

lemma loop_in_flight_bound:
  assumes "int (length (pending_tasks st)) \<le> n + 1"
      and "list_all (\<lambda>k. int k \<le> n + 1) (in_flight_so_far st)"
  shows "list_all (\<lambda>k. int k \<le> n + 1) (in_flight (infer_schema_loop w c n n_files st))"
  using assms
proof (induction w c n n_files st rule: infer_schema_loop.induct)
  case (1 w c n n_files st)
  show ?case
  proof (cases "pending_tasks st \<noteq> [] \<or> n_started st < n_files")
    case False
    then show ?thesis using "1.prems" by (simp add: loop_exit [OF False])
  next
    case cond: True
    obtain p1 k1 f1 where tu:
      "top_up n (pending_tasks st) (n_started st) (files_iter st) = (p1, k1, f1)"
      by (cases "top_up n (pending_tasks st) (n_started st) (files_iter st)") auto
    from top_up_bound [OF tu "1.prems"(1)] have p1: "int (length p1) \<le> n + 1" .
    show ?thesis
    proof (cases "asyncio_wait (completes_first w) p1")
      case (Inl e)
      show ?thesis using "1.prems" by (simp add: loop_wait_error [OF cond tu Inl])
    next
      case (Inr b)
      obtain dn p2 where b: "b = (dn, p2)" by (cases b)
      with Inr have wait: "asyncio_wait (completes_first w) p1 = Inr (dn, p2)" by simp
      from asyncio_wait_shrinks [OF wait] p1 have p2: "int (length p2) \<le> n + 1" by simp
      show ?thesis
      proof (cases "merge_done w c (base_schema st) dn")
        case (Inl e)
        show ?thesis using "1.prems" p1 by (simp add: loop_raise [OF cond tu wait Inl])
      next
        case md: (Inr merged)
        show ?thesis
          unfolding loop_again [OF cond tu wait md]
          using "1.IH" [OF cond tu [symmetric] refl refl refl wait refl md] p1 p2 "1.prems"
          by simp
      qed
    qed
  qed
qed

lemma in_flight_at_most_one_over:
  "0 \<le> n_concurrent_requests (discovery_policy s) \<Longrightarrow>
   list_all (\<lambda>k. int k \<le> n_concurrent_requests (discovery_policy s) + 1)
     (in_flight (infer_schema_coro w s files))"
  unfolding infer_schema_coro_def by (rule loop_in_flight_bound) simp_all

section \<open>A failing file fails the whole inference\<close>

text \<open>
  Every run of the loop with a failing file among its pending tasks or its remaining files
  ends in the \<open>SchemaInferenceError\<close> of such a file, whichever tasks the event loop
  completes first.
\<close>

lemma loop_fails:
  assumes "0 \<le> n"
      and "n_started st + length (files_iter st) = n_files"
      and "f \<in> snd ` set (pending_tasks st) \<union> set (files_iter st)"
      and "infer_file_schema w c f = Inl e0"
  shows "\<exists>g \<in> snd ` set (pending_tasks st) \<union> set (files_iter st).
           \<exists>e. infer_file_schema w c g = Inl e \<and>
               outcome (infer_schema_loop w c n n_files st) = Inl e"
  using assms
proof (induction w c n n_files st rule: infer_schema_loop.induct)
  case (1 w c n n_files st)
  obtain p1 k1 f1 where tu:
    "top_up n (pending_tasks st) (n_started st) (files_iter st) = (p1, k1, f1)"
    by (cases "top_up n (pending_tasks st) (n_started st) (files_iter st)") auto
  from "1.prems"(3) have ne: "pending_tasks st \<noteq> [] \<or> files_iter st \<noteq> []" by auto
  with "1.prems"(2) have cond: "pending_tasks st \<noteq> [] \<or> n_started st < n_files" by auto
  from top_up_keeps_files [OF tu]
  have "set (map snd p1 @ f1) = set (map snd (pending_tasks st) @ files_iter st)" by simp
  then have same: "snd ` set p1 \<union> set f1 = snd ` set (pending_tasks st) \<union> set (files_iter st)"
    by simp
  from top_up_nonempty [OF "1.prems"(1) ne tu] have "p1 \<noteq> []" .
  then obtain dn p2 where wait: "asyncio_wait (completes_first w) p1 = Inr (dn, p2)"
    using asyncio_wait_returns by blast
  from asyncio_wait_splits [OF wait] have parts: "set dn \<union> set p2 = set p1" .
  show ?case
  proof (cases "merge_done w c (base_schema st) dn")
    case (Inl e)
    from merge_done_Inl [OF Inl] obtain t where t: "t \<in> set dn"
      and te: "infer_file_schema w c (snd t) = Inl e" by blast
    from t parts have "snd t \<in> snd ` set p1" by blast
    with same have "snd t \<in> snd ` set (pending_tasks st) \<union> set (files_iter st)" by blast
    moreover have "outcome (infer_schema_loop w c n n_files st) = Inl e"
      by (simp add: loop_raise [OF cond tu wait Inl])
    ultimately show ?thesis using te by blast
  next
    case (Inr merged)
    let ?st = "\<lparr>base_schema = merged, pending_tasks = p2, n_started = k1, files_iter = f1,
        started_so_far = started_so_far st @ take (k1 - n_started st) (files_iter st),
        in_flight_so_far = in_flight_so_far st @ [length p1]\<rparr>"
    have "f \<notin> snd ` set dn"
      using merge_done_Inr [OF Inr] "1.prems"(4) by force
    moreover from "1.prems"(3) same have "f \<in> snd ` set p1 \<union> set f1" by blast
    moreover from parts have "snd ` set p1 = snd ` set dn \<union> snd ` set p2" by blast
    ultimately have f': "f \<in> snd ` set (pending_tasks ?st) \<union> set (files_iter ?st)"
      by auto
    from top_up_counts [OF tu] "1.prems"(2)
    have inv: "n_started ?st + length (files_iter ?st) = n_files" by simp
    from "1.IH" [OF cond tu [symmetric] refl refl refl wait refl Inr "1.prems"(1) inv f' "1.prems"(4)]
    obtain g e where g: "g \<in> snd ` set (pending_tasks ?st) \<union> set (files_iter ?st)"
      and ge: "infer_file_schema w c g = Inl e"
      and out: "outcome (infer_schema_loop w c n n_files ?st) = Inl e" by blast
    from parts have sub: "snd ` set p2 \<subseteq> snd ` set p1" by blast
    from g have "g \<in> snd ` set p2 \<union> set f1" by simp
    with sub have "g \<in> snd ` set p1 \<union> set f1" by blast
    then have "g \<in> snd ` set (pending_tasks st) \<union> set (files_iter st)"
      unfolding same .
    moreover have "outcome (infer_schema_loop w c n n_files st) = Inl e"
      using out by (simp add: loop_again [OF cond tu wait Inr])
    ultimately show ?thesis using ge by blast
  qed
qed

text \<open>
  C2 (amended): if the parser raises on some file of a schema inference, and
  \<open>n_concurrent_requests\<close> is not negative, the call raises a \<open>SchemaInferenceError\<close>
  whose message ends in the URI of a file the parser raises on (of that very file when it
  is the only one), and so returns no schema at all. Nothing is said of the sibling tasks:
  the call does not cancel them.
\<close>

theorem inference_fails_fast:
  assumes "0 \<le> n_concurrent_requests (discovery_policy s)"
      and "f \<in> set files"
      and "parser_infer_schema w (get_parser (cfg_file_type (config s))) f = Inl exn"
  shows "(\<exists>g \<in> set files.
            (\<exists>x. parser_infer_schema w (get_parser (cfg_file_type (config s))) g = Inl x) \<and>
            outcome (infer_schema_coro w s files) =
              Inl (SchemaInferenceError (''Error inferring schema for file: '' @ uri g)) \<and>
            fst (infer_schema w files s) =
              Inl (SchemaInferenceError (''Error inferring schema for file: '' @ uri g))) \<and>
         ((\<forall>h \<in> set files.
             (\<exists>x. parser_infer_schema w (get_parser (cfg_file_type (config s))) h = Inl x)
               \<longrightarrow> h = f) \<longrightarrow>
          outcome (infer_schema_coro w s files) =
            Inl (SchemaInferenceError (''Error inferring schema for file: '' @ uri f)))"
proof -
  let ?st = "\<lparr>base_schema = [], pending_tasks = [], n_started = 0, files_iter = files,
        started_so_far = [], in_flight_so_far = []\<rparr>"
  have fails: "infer_file_schema w (config s) f =
      Inl (SchemaInferenceError (''Error inferring schema for file: '' @ uri f))"
    using assms(3) by (simp add: infer_file_schema_def)
  have f0: "f \<in> snd ` set (pending_tasks ?st) \<union> set (files_iter ?st)"
    using assms(2) by simp
  have inv: "n_started ?st + length (files_iter ?st) = length files" by simp
  from loop_fails [OF assms(1) inv f0 fails]
  obtain g e where g: "g \<in> set files"
    and ge: "infer_file_schema w (config s) g = Inl e"
    and out: "outcome (infer_schema_coro w s files) = Inl e"
    by (auto simp: infer_schema_coro_def)
  from ge have gx: "\<exists>x. parser_infer_schema w (get_parser (cfg_file_type (config s))) g = Inl x"
    and e: "e = SchemaInferenceError (''Error inferring schema for file: '' @ uri g)"
    by (auto simp: infer_file_schema_def split: sum.splits)
  have first: "\<exists>g \<in> set files.
            (\<exists>x. parser_infer_schema w (get_parser (cfg_file_type (config s))) g = Inl x) \<and>
            outcome (infer_schema_coro w s files) =
              Inl (SchemaInferenceError (''Error inferring schema for file: '' @ uri g)) \<and>
            fst (infer_schema w files s) =
              Inl (SchemaInferenceError (''Error inferring schema for file: '' @ uri g))"
    using g gx out e by (auto simp: infer_schema_def Let_def)
  moreover have "(\<forall>h \<in> set files.
             (\<exists>x. parser_infer_schema w (get_parser (cfg_file_type (config s))) h = Inl x)
               \<longrightarrow> h = f) \<longrightarrow>
          outcome (infer_schema_coro w s files) =
            Inl (SchemaInferenceError (''Error inferring schema for file: '' @ uri f))"
    using g gx out e by blast
  ultimately show ?thesis by blast
qed

theorem inference_fails_fast_witness:
  "0 \<le> n_concurrent_requests (discovery_policy (example_stream 1 3 None)) \<and>
   file_b \<in> set [file_a, file_b, file_c] \<and>
   parser_infer_schema (example_world [''b.csv''])
     (get_parser (cfg_file_type (config (example_stream 1 3 None)))) file_b =
     Inl (Exc ''malformed file'') \<and>
   outcome (infer_schema_coro (example_world [''b.csv'']) (example_stream 1 3 None)
              [file_a, file_b, file_c]) =
     Inl (SchemaInferenceError ''Error inferring schema for file: b.csv'')"
proof -
  let ?w = "example_world [''b.csv'']" and ?s = "example_stream 1 3 None"
  have n: "0 \<le> n_concurrent_requests (discovery_policy ?s)"
    by (simp add: example_stream_def example_policy_def)
  have mem: "file_b \<in> set [file_a, file_b, file_c]" by simp
  have bad: "parser_infer_schema ?w (get_parser (cfg_file_type (config ?s))) file_b =
     Inl (Exc ''malformed file'')"
    by (simp add: example_world_def file_b_def)
  have only: "\<forall>h \<in> set [file_a, file_b, file_c].
     (\<exists>x. parser_infer_schema ?w (get_parser (cfg_file_type (config ?s))) h = Inl x)
       \<longrightarrow> h = file_b"
    by (simp add: example_world_def file_a_def file_b_def file_c_def)
  have u: "uri file_b = ''b.csv''" by (simp add: file_b_def)
  from inference_fails_fast [OF n mem bad] only
  have "outcome (infer_schema_coro ?w ?s [file_a, file_b, file_c]) =
     Inl (SchemaInferenceError (''Error inferring schema for file: '' @ uri file_b))"
    by blast
  with n mem bad u show ?thesis by simp
qed

text \<open>
  The sibling operations are not cancelled. With a bound of 1 and the files a, b, c, of
  which b fails: a and b are started, a completes, c is started, b fails and the call
  raises; the task of c is still pending then, and nothing cancels it.
\<close>

theorem failed_inference_leaves_sibling_pending:
  "outcome (infer_schema_coro (example_world [''b.csv'']) (example_stream 1 3 None)
              [file_a, file_b, file_c]) =
     Inl (SchemaInferenceError ''Error inferring schema for file: b.csv'') \<and>
   started (infer_schema_coro (example_world [''b.csv'']) (example_stream 1 3 None)
              [file_a, file_b, file_c]) = [file_a, file_b, file_c] \<and>
   left_pending (infer_schema_coro (example_world [''b.csv'']) (example_stream 1 3 None)
              [file_a, file_b, file_c]) = [(2, file_c)]"
  by (simp add: infer_schema_coro_def infer_schema_loop.simps example_stream_def
  example_policy_def example_world_def asyncio_wait_def infer_file_schema_def
  file_a_def file_b_def file_c_def Let_def get_parser_def)

section \<open>The files sampled for inference\<close>

lemma py_sorted_reverse_mset: "mset (py_sorted_reverse key xs) = mset xs"
  by (simp add: py_sorted_reverse_def)

lemma py_sorted_reverse_descending: "sorted (rev (map key (py_sorted_reverse key xs)))"
  by (simp add: py_sorted_reverse_def rev_map)

lemma py_sorted_reverse_stable:
  "filter (\<lambda>x. key x = t) (py_sorted_reverse key xs) = filter (\<lambda>x. key x = t) xs"
proof -
  have "filter (\<lambda>x. key x = t) (py_sorted_reverse key xs) =
        rev (filter (\<lambda>x. key x = t) (sort_key key (rev xs)))"
    by (simp add: py_sorted_reverse_def rev_filter)
  also have "\<dots> = rev (filter (\<lambda>x. key x = t) (rev xs))"
    by (simp only: sort_key_stable)
  also have "\<dots> = filter (\<lambda>x. key x = t) xs"
    by (simp add: rev_filter)
  finally show ?thesis .
qed

lemma descending_take_drop:
  assumes "sorted (rev (map key ys))" and "x \<in> set (take k ys)" and "y \<in> set (drop k ys)"
  shows "key y \<le> key x"
proof -
  have "ys = take k ys @ drop k ys" by simp
  then have "rev (map key ys) = rev (map key (drop k ys)) @ rev (map key (take k ys))"
    by (metis map_append rev_append)
  with assms(1) have "\<forall>a \<in> set (rev (map key (drop k ys))). \<forall>b \<in> set (rev (map key (take k ys))). a \<le> b"
    by (simp add: sorted_append)
  with assms(2,3) show ?thesis by simp
qed

lemma descending_take:
  assumes "sorted (rev (map key ys))"
  shows "sorted (rev (map key (take k ys)))"
proof -
  have "ys = take k ys @ drop k ys" by simp
  then have "rev (map key ys) = rev (map key (drop k ys)) @ rev (map key (take k ys))"
    by (metis map_append rev_append)
  with assms show ?thesis by (simp add: sorted_append)
qed

lemma files_for_inference_cut:
  assumes "0 \<le> k" and "k < int (length files)"
  shows "fst (files_for_inference k files) = take (nat k) (py_sorted_reverse last_modified files)"
  using assms by (simp add: files_for_inference_def py_slice_to_def Let_def)

lemma files_for_inference_all:
  "int (length files) \<le> k \<Longrightarrow> files_for_inference k files = (files, [])"
  by (simp add: files_for_inference_def)

lemma latest_files_selected:
  assumes "0 \<le> k" and "k < int (length files)"
  defines "sel \<equiv> fst (files_for_inference k files)"
  shows "length sel = nat k"
    and "mset sel \<subseteq># mset files"
    and "\<forall>x\<in>set sel. \<forall>y\<in>#(mset files - mset sel). last_modified y \<le> last_modified x"
    and "\<forall>t. prefix (filter (\<lambda>f. last_modified f = t) sel)
                    (filter (\<lambda>f. last_modified f = t) files)"
    and "sorted (rev (map last_modified sel))"
proof -
  let ?ys = "py_sorted_reverse last_modified files"
  have sel: "sel = take (nat k) ?ys"
    unfolding sel_def by (rule files_for_inference_cut [OF assms(1,2)])
  have len: "length ?ys = length files"
    by (simp add: py_sorted_reverse_def)
  show "length sel = nat k" using assms(1,2) by (simp add: sel len)
  have ms: "mset files = mset (take (nat k) ?ys) + mset (drop (nat k) ?ys)"
    by (metis append_take_drop_id mset_append py_sorted_reverse_mset)
  show "mset sel \<subseteq># mset files" unfolding sel ms by simp
  have rest: "mset files - mset sel = mset (drop (nat k) ?ys)"
    unfolding sel ms by simp
  show "\<forall>x\<in>set sel. \<forall>y\<in>#(mset files - mset sel). last_modified y \<le> last_modified x"
    unfolding rest unfolding sel
    using descending_take_drop [OF py_sorted_reverse_descending [of last_modified files]]
    by auto
  show "\<forall>t. prefix (filter (\<lambda>f. last_modified f = t) sel)
                    (filter (\<lambda>f. last_modified f = t) files)"
  proof
    fix t
    have "prefix (filter (\<lambda>f. last_modified f = t) (take (nat k) ?ys))
                 (filter (\<lambda>f. last_modified f = t) ?ys)"
      by (rule filter_mono_prefix [OF take_is_prefix])
    then show "prefix (filter (\<lambda>f. last_modified f = t) sel)
                    (filter (\<lambda>f. last_modified f = t) files)"
      by (simp only: sel py_sorted_reverse_stable)
  qed
  show "sorted (rev (map last_modified sel))"
    unfolding sel by (rule descending_take [OF py_sorted_reverse_descending])
qed

lemma infer_schema_coro_cong:
  "config s' = config s \<Longrightarrow> discovery_policy s' = discovery_policy s \<Longrightarrow>
   infer_schema_coro w s' files = infer_schema_coro w s files"
  by (simp add: infer_schema_coro_def)

lemma list_files_keeps:
  "config (snd (list_files w s)) = config s \<and>
   discovery_policy (snd (list_files w s)) = discovery_policy s"
  by (simp add: list_files_def Let_def split: option.splits)

text \<open>
  A task is created for the files in their order, for all of them when the run returns a
  schema and for a first part of them when it raises.
\<close>

lemma loop_started:
  assumes "n_started st + length (files_iter st) = n_files"
  shows "prefix (started (infer_schema_loop w c n n_files st))
           (started_so_far st @ files_iter st) \<and>
         (\<forall>v. outcome (infer_schema_loop w c n n_files st) = Inr v \<longrightarrow>
              started (infer_schema_loop w c n n_files st) =
                started_so_far st @ files_iter st)"
  using assms
proof (induction w c n n_files st rule: infer_schema_loop.induct)
  case (1 w c n n_files st)
  show ?case
  proof (cases "pending_tasks st \<noteq> [] \<or> n_started st < n_files")
    case False
    with "1.prems" have "files_iter st = []" by auto
    then show ?thesis by (simp add: loop_exit [OF False])
  next
    case cond: True
    obtain p1 k1 f1 where tu:
      "top_up n (pending_tasks st) (n_started st) (files_iter st) = (p1, k1, f1)"
      by (cases "top_up n (pending_tasks st) (n_started st) (files_iter st)") auto
    from top_up_counts [OF tu]
    have cnt: "k1 + length f1 = n_started st + length (files_iter st)"
      and tk: "take (k1 - n_started st) (files_iter st) @ f1 = files_iter st" by simp_all
    let ?started1 = "started_so_far st @ take (k1 - n_started st) (files_iter st)"
    have all: "?started1 @ f1 = started_so_far st @ files_iter st"
      using tk by simp
    then have pre: "prefix ?started1 (started_so_far st @ files_iter st)"
      by (metis prefixI)
    show ?thesis
    proof (cases "asyncio_wait (completes_first w) p1")
      case (Inl e)
      show ?thesis using pre by (simp add: loop_wait_error [OF cond tu Inl])
    next
      case (Inr b)
      obtain dn p2 where b: "b = (dn, p2)" by (cases b)
      with Inr have wait: "asyncio_wait (completes_first w) p1 = Inr (dn, p2)" by simp
      show ?thesis
      proof (cases "merge_done w c (base_schema st) dn")
        case (Inl e)
        show ?thesis using pre by (simp add: loop_raise [OF cond tu wait Inl])
      next
        case md: (Inr merged)
        let ?st = "\<lparr>base_schema = merged, pending_tasks = p2, n_started = k1, files_iter = f1,
          started_so_far = ?started1, in_flight_so_far = in_flight_so_far st @ [length p1]\<rparr>"
        from cnt "1.prems" have inv: "n_started ?st + length (files_iter ?st) = n_files" by simp
        from "1.IH" [OF cond tu [symmetric] refl refl refl wait refl md inv]
        show ?thesis
          unfolding loop_again [OF cond tu wait md] using all by simp
      qed
    qed
  qed
qed

lemma started_of_run:
  "prefix (started (infer_schema_coro w s files)) files \<and>
   (\<forall>v. outcome (infer_schema_coro w s files) = Inr v \<longrightarrow>
        started (infer_schema_coro w s files) = files)"
  using loop_started [of "\<lparr>base_schema = [], pending_tasks = [], n_started = 0,
        files_iter = files, started_so_far = [], in_flight_so_far = []\<rparr>" "length files"
        w "config s" "n_concurrent_requests (discovery_policy s)"]
  by (simp add: infer_schema_coro_def)

lemma get_json_schema_infers:
  assumes "\<not> truthy (input_schema (config s))" and "get_json_schema_cache s = None"
  shows "fst (get_json_schema w s) =
           outcome (infer_schema_coro w s
             (fst (files_for_inference (max_n_files_for_schema_inference (discovery_policy s))
                (fst (list_files w s)))))"
    and "effects (snd (get_json_schema w s)) =
           effects (snd (list_files w s)) @
           snd (files_for_inference (max_n_files_for_schema_inference (discovery_policy s))
                (fst (list_files w s))) @
           map InferSchemaTask (started (infer_schema_coro w s
             (fst (files_for_inference (max_n_files_for_schema_inference (discovery_policy s))
                (fst (list_files w s))))))"
proof -
  obtain files s1 where lf: "list_files w s = (files, s1)" by (cases "list_files w s")
  from list_files_keeps [of w s] lf
  have keep: "config s1 = config s" "discovery_policy s1 = discovery_policy s" by simp_all
  obtain sel warnings where ffi:
    "files_for_inference (max_n_files_for_schema_inference (discovery_policy s)) files = (sel, warnings)"
    by (cases "files_for_inference (max_n_files_for_schema_inference (discovery_policy s)) files")
  let ?s2 = "s1\<lparr>effects := effects s1 @ warnings\<rparr>"
  have run: "infer_schema_coro w ?s2 sel = infer_schema_coro w s sel"
    by (rule infer_schema_coro_cong) (simp_all add: keep)
  have body: "get_json_schema_body w s = infer_schema w sel ?s2"
    using assms(1) by (simp add: get_json_schema_body_def lf ffi keep)
  have whole: "fst (get_json_schema w s) = fst (infer_schema w sel ?s2) \<and>
      effects (snd (get_json_schema w s)) = effects (snd (infer_schema w sel ?s2))"
    using assms(2) by (simp add: get_json_schema_def body split: prod.splits sum.splits)
  show "fst (get_json_schema w s) =
           outcome (infer_schema_coro w s
             (fst (files_for_inference (max_n_files_for_schema_inference (discovery_policy s))
                (fst (list_files w s)))))"
    using whole by (simp add: lf ffi infer_schema_def Let_def run)
  show "effects (snd (get_json_schema w s)) =
           effects (snd (list_files w s)) @
           snd (files_for_inference (max_n_files_for_schema_inference (discovery_policy s))
                (fst (list_files w s))) @
           map InferSchemaTask (started (infer_schema_coro w s
             (fst (files_for_inference (max_n_files_for_schema_inference (discovery_policy s))
                (fst (list_files w s))))))"
    using whole by (simp add: lf ffi infer_schema_def Let_def run)
qed

text \<open>
  C3: in \<open>get_json_schema\<close> (no declared schema, nothing cached yet, a bound \<open>k\<close> that
  is not negative), inference runs on the list \<open>sel\<close> and on nothing else: the result is
  the outcome of \<open>_infer_schema\<close> on \<open>sel\<close>, and tasks are created for the files of
  \<open>sel\<close> in order (all of them when a schema is returned). When more than \<open>k\<close> files
  are listed, \<open>sel\<close> has exactly \<open>k\<close> files, all of them listed files; every file left
  out was modified no later than every file of \<open>sel\<close>; among the files of one
  modification time, \<open>sel\<close> holds those listed first; and \<open>sel\<close> is in descending order
  of modification time. When at most \<open>k\<close> files are listed, \<open>sel\<close> is the listing
  itself.
\<close>

theorem sampling_truncation:
  assumes "0 \<le> max_n_files_for_schema_inference (discovery_policy s)"
      and "\<not> truthy (input_schema (config s))"
      and "get_json_schema_cache s = None"
  shows "(let k = max_n_files_for_schema_inference (discovery_policy s);
              files = fst (list_files w s);
              sel = fst (files_for_inference k files);
              run = infer_schema_coro w s sel
          in fst (get_json_schema w s) = outcome run \<and>
             effects (snd (get_json_schema w s)) =
               effects (snd (list_files w s)) @ snd (files_for_inference k files) @
               map InferSchemaTask (started run) \<and>
             prefix (started run) sel \<and>
             (\<forall>v. outcome run = Inr v \<longrightarrow> started run = sel) \<and>
             (k < int (length files) \<longrightarrow>
                length sel = nat k \<and>
                mset sel \<subseteq># mset files \<and>
                (\<forall>x\<in>set sel. \<forall>y\<in>#(mset files - mset sel).
                    last_modified y \<le> last_modified x) \<and>
                (\<forall>t. prefix (filter (\<lambda>f. last_modified f = t) sel)
                             (filter (\<lambda>f. last_modified f = t) files)) \<and>
                sorted (rev (map last_modified sel))) \<and>
             (int (length files) \<le> k \<longrightarrow> sel = files))"
proof -
  let ?k = "max_n_files_for_schema_inference (discovery_policy s)"
  let ?files = "fst (list_files w s)"
  let ?sel = "fst (files_for_inference ?k ?files)"
  let ?run = "infer_schema_coro w s ?sel"
  note wiring = get_json_schema_infers [OF assms(2,3), of w]
  have a: "fst (get_json_schema w s) = outcome ?run" by (rule wiring(1))
  have b: "effects (snd (get_json_schema w s)) =
      effects (snd (list_files w s)) @ snd (files_for_inference ?k ?files) @
      map InferSchemaTask (started ?run)" by (rule wiring(2))
  have c: "prefix (started ?run) ?sel \<and> (\<forall>v. outcome ?run = Inr v \<longrightarrow> started ?run = ?sel)"
    by (rule started_of_run)
  have d: "?k < int (length ?files) \<longrightarrow>
                length ?sel = nat ?k \<and>
                mset ?sel \<subseteq># mset ?files \<and>
                (\<forall>x\<in>set ?sel. \<forall>y\<in>#(mset ?files - mset ?sel).
                    last_modified y \<le> last_modified x) \<and>
                (\<forall>t. prefix (filter (\<lambda>f. last_modified f = t) ?sel)
                             (filter (\<lambda>f. last_modified f = t) ?files)) \<and>
                sorted (rev (map last_modified ?sel))"
    using latest_files_selected [OF assms(1), of ?files] by blast
  have e: "int (length ?files) \<le> ?k \<longrightarrow> ?sel = ?files"
    by (simp add: files_for_inference_all)
  from a b c d e show ?thesis unfolding Let_def by blast
qed

theorem sampling_truncation_witness:
  "0 \<le> max_n_files_for_schema_inference (discovery_policy (example_stream 1 2 None)) \<and>
   \<not> truthy (input_schema (config (example_stream 1 2 None))) \<and>
   get_json_schema_cache (example_stream 1 2 None) = None \<and>
   fst (list_files (example_world []) (example_stream 1 2 None)) = [file_a, file_b, file_c] \<and>
   fst (files_for_inference 2 [file_a, file_b, file_c]) = [file_c, file_b] \<and>
   fst (get_json_schema (example_world []) (example_stream 1 2 None)) =
     outcome (infer_schema_coro (example_world []) (example_stream 1 2 None) [file_c, file_b]) \<and>
   started (infer_schema_coro (example_world []) (example_stream 1 2 None) [file_c, file_b]) =
     [file_c, file_b]"
proof -
  let ?w = "example_world []" and ?s = "example_stream 1 2 None"
  have k: "max_n_files_for_schema_inference (discovery_policy ?s) = 2"
    by (simp add: example_stream_def example_policy_def)
  have h1: "0 \<le> max_n_files_for_schema_inference (discovery_policy ?s)" by (simp add: k)
  have h2: "\<not> truthy (input_schema (config ?s))"
    by (simp add: example_stream_def truthy_def)
  have h3: "get_json_schema_cache ?s = None" by (simp add: example_stream_def)
  have files: "fst (list_files ?w ?s) = [file_a, file_b, file_c]"
    by (simp add: list_files_def example_stream_def example_world_def
        catalog_list_matching_def file_a_def file_b_def file_c_def Let_def)
  have sel: "fst (files_for_inference 2 [file_a, file_b, file_c]) = [file_c, file_b]"
    by (simp add: files_for_inference_def py_slice_to_def py_sorted_reverse_def
        file_a_def file_b_def file_c_def)
  have out: "outcome (infer_schema_coro ?w ?s [file_c, file_b]) = Inr [(''id'', JStr ''integer'')]"
    by (simp add: infer_schema_coro_def infer_schema_loop.simps example_stream_def
        example_policy_def example_world_def asyncio_wait_def infer_file_schema_def
        file_b_def file_c_def Let_def get_parser_def)
  from sampling_truncation [OF h1 h2 h3, of ?w]
  have "fst (get_json_schema ?w ?s) = outcome (infer_schema_coro ?w ?s [file_c, file_b]) \<and>
        (\<forall>v. outcome (infer_schema_coro ?w ?s [file_c, file_b]) = Inr v \<longrightarrow>
           started (infer_schema_coro ?w ?s [file_c, file_b]) = [file_c, file_b])"
    unfolding Let_def k files sel by blast
  with out h1 h2 h3 files sel show ?thesis by simp
qed

section \<open>A declared schema, and the cache\<close>

text \<open>
  C7 (amended): whenever the stream configuration holds a declared input schema that is
  not empty, \<open>get_json_schema\<close> returns that schema converted by
  \<open>type_mapping_to_jsonschema\<close>, lists no file and starts no inference (the trace of
  effects and the cache of the listing are unchanged).
\<close>

theorem declared_schema_skips_inference:
  assumes "input_schema (config s) = Some m" and "m \<noteq> []"
      and "get_json_schema_cache s = None \<or>
           get_json_schema_cache s = Some (type_mapping_to_jsonschema w m)"
  shows "fst (get_json_schema w s) = Inr (type_mapping_to_jsonschema w m) \<and>
         effects (snd (get_json_schema w s)) = effects s \<and>
         list_files_cache (snd (get_json_schema w s)) = list_files_cache s"
  using assms
  by (auto simp: get_json_schema_def get_json_schema_body_def truthy_def)

theorem declared_schema_skips_inference_witness:
  "input_schema (config (example_stream 1 2 (Some [(''id'', JStr ''integer'')]))) =
     Some [(''id'', JStr ''integer'')] \<and>
   [(''id'', JStr ''integer'')] \<noteq> ([] :: pydict) \<and>
   get_json_schema_cache (example_stream 1 2 (Some [(''id'', JStr ''integer'')])) = None \<and>
   fst (get_json_schema (example_world []) (example_stream 1 2 (Some [(''id'', JStr ''integer'')]))) =
     Inr [(''type'', JStr ''object''), (''properties'', JDict [(''id'', JStr ''integer'')])] \<and>
   effects (snd (get_json_schema (example_world [])
                   (example_stream 1 2 (Some [(''id'', JStr ''integer'')])))) = []"
proof -
  let ?s = "example_stream 1 2 (Some [(''id'', JStr ''integer'')])"
  have a: "input_schema (config ?s) = Some [(''id'', JStr ''integer'')]"
    by (simp add: example_stream_def)
  have b: "[(''id'', JStr ''integer'')] \<noteq> ([] :: pydict)" by simp
  have c: "get_json_schema_cache ?s = None" by (simp add: example_stream_def)
  have d: "type_mapping_to_jsonschema (example_world []) [(''id'', JStr ''integer'')] =
      [(''type'', JStr ''object''), (''properties'', JDict [(''id'', JStr ''integer'')])]"
    by (simp add: example_world_def)
  have e: "effects ?s = []" by (simp add: example_stream_def)
  from declared_schema_skips_inference [OF a b disjI1 [OF c], of "example_world []"]
  show ?thesis using a c d e by simp
qed

text \<open>
  A declared schema that is empty does not skip inference. The test is
  \<open>if self.config.input_schema\<close>, and the empty mapping \<open>{}\<close> is falsy: with the
  declared schema \<open>{}\<close> the files are listed and their schema is inferred.
\<close>

theorem empty_declared_schema_is_inferred:
  "input_schema (config (example_stream 1 2 (Some []))) = Some [] \<and>
   get_json_schema_cache (example_stream 1 2 (Some [])) = None \<and>
   fst (get_json_schema (example_world []) (example_stream 1 2 (Some []))) =
     Inr [(''id'', JStr ''integer'')] \<and>
   type_mapping_to_jsonschema (example_world []) [] =
     [(''type'', JStr ''object''), (''properties'', JDict [])] \<and>
   effects (snd (get_json_schema (example_world []) (example_stream 1 2 (Some [])))) =
     [ListMatchingFiles [''a.csv'', ''b.csv'', ''c.csv''] None, WarnRefusingToInfer 2 2,
      InferSchemaTask file_c, InferSchemaTask file_b]"
  by (simp add: get_json_schema_def get_json_schema_body_def truthy_def example_stream_def
      example_world_def list_files_def catalog_list_matching_def files_for_inference_def
      py_sorted_reverse_def py_slice_to_def infer_schema_def infer_schema_coro_def
      infer_schema_loop.simps asyncio_wait_def infer_file_schema_def get_parser_def
      example_policy_def file_a_def file_b_def file_c_def Let_def)

text \<open>
  C8: after a call of \<open>get_json_schema\<close> that returned a schema, a second call on the
  same stream object returns the same schema and leaves the object and the trace of
  effects as they were: no file is listed and no parser is called again, whatever the
  collaborators would answer now.
\<close>

theorem get_json_schema_memoized:
  "get_json_schema w s = (Inr v, s') \<Longrightarrow> get_json_schema w' s' = (Inr v, s')"
  by (auto simp: get_json_schema_def split: option.splits prod.splits sum.splits)

theorem get_json_schema_memoized_witness:
  "fst (get_json_schema (example_world []) (example_stream 1 2 None)) =
     Inr [(''id'', JStr ''integer'')] \<and>
   get_json_schema (example_world [''a.csv'', ''b.csv'', ''c.csv''])
     (snd (get_json_schema (example_world []) (example_stream 1 2 None))) =
     (Inr [(''id'', JStr ''integer'')],
      snd (get_json_schema (example_world []) (example_stream 1 2 None)))"
proof -
  have v: "fst (get_json_schema (example_world []) (example_stream 1 2 None)) =
     Inr [(''id'', JStr ''integer'')]"
    by (simp add: get_json_schema_def get_json_schema_body_def truthy_def example_stream_def
      example_world_def list_files_def catalog_list_matching_def files_for_inference_def
      py_sorted_reverse_def py_slice_to_def infer_schema_def infer_schema_coro_def
      infer_schema_loop.simps asyncio_wait_def infer_file_schema_def get_parser_def
      example_policy_def file_a_def file_b_def file_c_def Let_def)
  then have r: "get_json_schema (example_world []) (example_stream 1 2 None) =
      (Inr [(''id'', JStr ''integer'')],
       snd (get_json_schema (example_world []) (example_stream 1 2 None)))"
    by (metis prod.collapse)
  from get_json_schema_memoized [OF r, of "example_world [''a.csv'', ''b.csv'', ''c.csv'']"] v
  show ?thesis by simp
qed

section \<open>Reading records\<close>

lemma validate_records_eq:
  "validate_records passes rs =
     (filter passes rs, map WarnRecordRejected (filter (\<lambda>r. \<not> passes r) rs))"
  by (induction rs) auto

lemma read_files_eq:
  "read_files w c schema files =
     (concat (map (\<lambda>f. filter (\<lambda>r. record_passes_validation_policy w (validation_policy c) r schema)
                           (parser_parse_records w (get_parser (cfg_file_type c)) f)) files),
      concat (map (\<lambda>f. ParseRecords f #
                     map WarnRecordRejected
                       (filter (\<lambda>r. \<not> record_passes_validation_policy w (validation_policy c) r schema)
                          (parser_parse_records w (get_parser (cfg_file_type c)) f))) files))"
  by (induction files) (auto simp: validate_records_eq)

text \<open>
  C5: for a stream with a schema, \<open>read_records\<close> raises nothing and yields, for the
  files of the sync in their listed order, each file's parsed records that pass the
  validation policy, unchanged and in the parser's order; every record that does not pass
  is logged as a warning, in the same order, and reading goes on.
\<close>

theorem read_records_filters_in_order:
  assumes "catalog_schema s = Some schema"
  shows "(let files = fst (list_files_for_this_sync w stream_state s);
              passes = (\<lambda>r. record_passes_validation_policy w (validation_policy (config s)) r schema);
              parse = parser_parse_records w (get_parser (cfg_file_type (config s)))
          in fst (read_records w stream_state s) =
               (concat (map (\<lambda>f. filter passes (parse f)) files), None) \<and>
             effects (snd (read_records w stream_state s)) =
               effects (snd (list_files_for_this_sync w stream_state s)) @
               concat (map (\<lambda>f. ParseRecords f #
                              map WarnRecordRejected (filter (\<lambda>r. \<not> passes r) (parse f))) files))"
  using assms
  by (simp add: read_records_def read_files_eq list_files_for_this_sync_def Let_def)

theorem read_records_filters_in_order_witness:
  "catalog_schema (example_stream 1 2 None) = Some [] \<and>
   fst (read_records (example_world []) None (example_stream 1 2 None)) =
     ([[(''id'', JInt 9)], [(''id'', JInt 10)], [(''id'', JInt 11)]], None) \<and>
   effects (snd (read_records (example_world []) None (example_stream 1 2 None))) =
     [ListMatchingFiles [''a.csv'', ''b.csv'', ''c.csv''] None,
      ParseRecords file_a, WarnRecordRejected [(''id'', JStr ''a.csv'')],
      ParseRecords file_b, WarnRecordRejected [(''id'', JStr ''b.csv'')],
      ParseRecords file_c, WarnRecordRejected [(''id'', JStr ''c.csv'')]]"
proof -
  have h: "catalog_schema (example_stream 1 2 None) = Some []"
    by (simp add: example_stream_def)
  have files: "fst (list_files_for_this_sync (example_world []) None (example_stream 1 2 None)) =
      [file_a, file_b, file_c]"
    by (simp add: example_world_def example_stream_def list_files_for_this_sync_def
      get_datetime_from_stream_state_def catalog_list_matching_def
      file_a_def file_b_def file_c_def)
  have eff: "effects (snd (list_files_for_this_sync (example_world []) None (example_stream 1 2 None))) =
      [ListMatchingFiles [''a.csv'', ''b.csv'', ''c.csv''] None]"
    by (simp add: example_stream_def list_files_for_this_sync_def
      get_datetime_from_stream_state_def)
  have parse: "parser_parse_records (example_world []) p f = [[(''id'', JInt (last_modified f))], [(''id'', JStr (uri f))]]" for p f
    by (simp add: example_world_def)
  have pass: "record_passes_validation_policy (example_world []) pol r sch = (case map_of r ''id'' of Some (JInt i) \<Rightarrow> True | _ \<Rightarrow> False)" for pol r sch
    by (simp add: example_world_def)
  show ?thesis
    using read_records_filters_in_order [OF h, of "example_world []" None]
    unfolding Let_def files eff parse pass
    by (simp add: h file_a_def file_b_def file_c_def)
qed

text \<open>
  C4: reading records before any schema was resolved is claimed to raise
  \<open>MissingSchemaError\<close>. A stream as its constructor leaves it has the schema \<open>{}\<close>, not
  \<open>None\<close>, so \<open>read_records\<close> raises nothing and yields the records that pass validation.
\<close>

theorem fresh_stream_reads_without_schema:
  "init (example_world []) example_raw_config (example_policy 1 2) =
     Inr (example_stream 1 2 None) \<and>
   fst (read_records (example_world []) None (example_stream 1 2 None)) =
     ([[(''id'', JInt 9)], [(''id'', JInt 10)], [(''id'', JInt 11)]], None)"
  by (simp add: init_def example_world_def example_config_of_def example_raw_config_def
      example_stream_def read_records_def list_files_for_this_sync_def
      get_datetime_from_stream_state_def catalog_list_matching_def get_parser_def
      file_a_def file_b_def file_c_def example_policy_def)

text \<open>The guard itself works, but no constructed stream reaches it.\<close>

lemma read_records_without_schema:
  "catalog_schema s = None \<Longrightarrow>
   read_records w stream_state s =
     (([], Some (MissingSchemaError
            ''Expected `json_schema` in the configured catalog but it is missing.'')), s)"
  by (simp add: read_records_def)

lemma constructed_stream_never_misses_schema:
  "init w raw_config policy = Inr s \<Longrightarrow> snd (fst (read_records w stream_state s)) = None"
  by (auto simp: init_def read_records_def split: sum.splits prod.splits)

section \<open>The files of a sync\<close>

text \<open>
  C6: with a cursor instant in the stream state, the files of a sync are claimed to be
  those modified at or after it. \<open>_get_datetime_from_stream_state\<close> returns \<open>None\<close> for
  every state, so with the cursor 10 and files modified at 9, 10 and 11 all three files
  are listed, where the catalog asked for the files from 10 on gives two.
\<close>

theorem cursor_is_ignored:
  "fst (list_files_for_this_sync (example_world []) (Some [(''start'', JInt 10)])
         (example_stream 1 2 None)) = [file_a, file_b, file_c] \<and>
   catalog_list_matching (=) [file_a, file_b, file_c] (globs (config (example_stream 1 2 None)))
     (Some 10) = [file_b, file_c]"
  by (simp add: example_world_def example_stream_def list_files_for_this_sync_def
      get_datetime_from_stream_state_def catalog_list_matching_def
      file_a_def file_b_def file_c_def)

lemma list_files_for_this_sync_any_state:
  "list_files_for_this_sync w stream_state s = list_files_for_this_sync w None s"
  by (simp add: list_files_for_this_sync_def get_datetime_from_stream_state_def)

end
